theory Spec2Isabelle
  imports Complex_Main
begin

section \<open>JavaScript numbers\<close>

text \<open>
  A JavaScript number is a binary64 value: a finite one is given by the rational it stands
  for (\<open>Num 0\<close> is \<open>+0\<close>), and there are \<open>-0\<close>, the two infinities and \<open>NaN\<close>.
\<close>

datatype js_number = Num rat | NegZero | PosInfinity | NegInfinity | NaN

text \<open>The number of binary digits of a natural number.\<close>

fun bit_length :: "nat \<Rightarrow> nat" where
  "bit_length n = (if n = 0 then 0 else Suc (bit_length (n div 2)))"

declare bit_length.simps [simp del]

text \<open>The exponent of the leading binary digit of a positive rational.\<close>

definition floor_log2 :: "rat \<Rightarrow> int" where
  "floor_log2 x =
     (if 1 \<le> x then int (bit_length (nat \<lfloor>x\<rfloor>)) - 1
      else - int (bit_length (nat (\<lceil>1 / x\<rceil> - 1))))"

definition pow2 :: "int \<Rightarrow> rat" where
  "pow2 e = (if 0 \<le> e then 2 ^ nat e else 1 / 2 ^ nat (- e))"

definition round_half_even :: "rat \<Rightarrow> int" where
  "round_half_even q =
     (let f = \<lfloor>q\<rfloor>; r = q - of_int f
      in if r < 1 / 2 then f
         else if 1 / 2 < r then f + 1
         else if even f then f else f + 1)"

text \<open>
  Rounding a non-zero rational to binary64, to nearest with ties to even: 53 significant
  binary digits, no digit below \<open>2 ^ - 1074\<close>, and infinity from \<open>2 ^ 1024\<close> on.
\<close>

definition round64 :: "rat \<Rightarrow> js_number" where
  "round64 x =
     (let a = \<bar>x\<bar>;
          e = max (floor_log2 a - 52) (- 1074);
          m = round_half_even (a / pow2 e);
          v = of_int m * pow2 e
      in if pow2 1024 \<le> v then (if x < 0 then NegInfinity else PosInfinity)
         else if m = 0 then (if x < 0 then NegZero else Num 0)
         else Num (if x < 0 then - v else v))"

fun is_zero :: "js_number \<Rightarrow> bool" where
  "is_zero (Num q) = (q = 0)"
| "is_zero NegZero = True"
| "is_zero _ = False"

fun is_infinite :: "js_number \<Rightarrow> bool" where
  "is_infinite PosInfinity = True"
| "is_infinite NegInfinity = True"
| "is_infinite _ = False"

fun is_negative :: "js_number \<Rightarrow> bool" where
  "is_negative (Num q) = (q < 0)"
| "is_negative NegZero = True"
| "is_negative NegInfinity = True"
| "is_negative _ = False"

fun finite_value :: "js_number \<Rightarrow> rat" where
  "finite_value (Num q) = q"
| "finite_value _ = 0"

text \<open>The operator \<open>*\<close> on two numbers: the exact product, rounded.\<close>

definition js_mul :: "js_number \<Rightarrow> js_number \<Rightarrow> js_number" where
  "js_mul a b =
     (if a = NaN \<or> b = NaN then NaN
      else if is_infinite a \<or> is_infinite b then
        (if is_zero a \<or> is_zero b then NaN
         else if is_negative a \<noteq> is_negative b then NegInfinity else PosInfinity)
      else if is_zero a \<or> is_zero b then
        (if is_negative a \<noteq> is_negative b then NegZero else Num 0)
      else round64 (finite_value a * finite_value b))"

section \<open>Retry executor: \<open>utils/helpers/testRetry.js\<close>\<close>

text \<open>
  A JavaScript error object, as far as \<open>executeWithRetry\<close> looks at it: its identity
  (two objects with the same message are still two objects) and its \<open>.message\<close>
  property, \<open>None\<close> when the property is undefined.
\<close>

record js_error =
  ident :: nat
  message :: "string option"

text \<open>
  What awaiting \<open>testFunc()\<close> gives: the resolved value or the thrown error. What is thrown
  is taken to be an object whose \<open>message\<close> is a string or undefined, as the errors of the browser
  driver and of assertions are; the awaited call is taken to settle.
\<close>

datatype 'v completion = Returns 'v | Throws js_error

text \<open>
  \<open>testFunc\<close> takes no argument and acts on the browser, so it is a function of the state
  of the world, returning the new one.
\<close>

type_synonym ('s, 'v) testFunc = "'s \<Rightarrow> 'v completion \<times> 's"

text \<open>
  The values \<open>executeWithRetry\<close> can throw: the very object the action threw
  (line 80), the \<open>new Error\<close> of line 85 with the holes of its template (test name,
  \<open>maxRetries\<close>, \<open>lastError.message\<close>), and the \<open>TypeError\<close> of reading
  \<open>.message\<close> of an undefined \<open>lastError\<close> while that template is evaluated.
\<close>

datatype thrown =
    ActionError js_error
  | FailedAfter string int "string option"
  | TypeError

datatype 'v outcome = Resolved 'v | Rejected thrown

text \<open>
  The destructured second parameter, after the defaults are filled in. \<open>maxRetries\<close> is taken
  to be an integer; the delay and its multiplier are any numbers.
\<close>

record retry_config =
  maxRetries :: int
  initialDelay :: js_number
  backoffMultiplier :: js_number
  testName :: string
  retryableErrors :: "string list"

text \<open>What a run does besides returning: the calls, the console lines and the timers.\<close>

datatype io_event =
    Invoke
  | LogPassed string int int
  | WarnFailed string int int "string option"
  | LogRetrying js_number
  | Sleep js_number

record ('v, 's) run =
  outcome :: "'v outcome"
  trace :: "io_event list"
  world :: 's

text \<open>\<open>String.prototype.includes\<close>: the pattern occurs as a contiguous part.\<close>

fun includes_js :: "'a list \<Rightarrow> 'a list \<Rightarrow> bool" where
  "includes_js [] pattern = (pattern = [])"
| "includes_js (c # cs) pattern =
     (take (length pattern) (c # cs) = pattern \<or> includes_js cs pattern)"

text \<open>\<open>shouldRetry\<close>, lines 93 to 105. \<open>error.message || ''\<close> reads an undefined message as the empty string.\<close>

definition shouldRetry :: "js_error \<Rightarrow> int \<Rightarrow> int \<Rightarrow> string list \<Rightarrow> bool" where
  "shouldRetry error attempt maxRetries' retryableErrors' =
     (if attempt \<ge> maxRetries' then False
      else
        (let errorMessage = (case message error of None \<Rightarrow> [] | Some m \<Rightarrow> m)
         in list_ex (\<lambda>pattern. includes_js errorMessage pattern) retryableErrors'))"

text \<open>
  The \<open>for\<close> loop of lines 48 to 83 followed by the \<open>throw\<close> of line 85, from the
  loop variables \<open>attempt\<close>, \<open>delay\<close> and \<open>lastError\<close>.
\<close>

function retry_loop ::
  "('s, 'v) testFunc \<Rightarrow> retry_config \<Rightarrow> int \<Rightarrow> js_number \<Rightarrow> js_error option \<Rightarrow> 's
     \<Rightarrow> ('v, 's) run" where
  "retry_loop testFunc cfg attempt delay lastError s =
     (if attempt \<le> maxRetries cfg then
        (case testFunc s of
           (Returns result, s') \<Rightarrow>
             \<lparr>outcome = Resolved result,
              trace = Invoke #
                (if attempt > 1 then [LogPassed (testName cfg) attempt (maxRetries cfg)] else []),
              world = s'\<rparr>
         | (Throws error, s') \<Rightarrow>
             if shouldRetry error attempt (maxRetries cfg) (retryableErrors cfg) then
               (let r = retry_loop testFunc cfg (attempt + 1)
                          (js_mul delay (backoffMultiplier cfg)) (Some error) s'
                in r\<lparr>trace :=
                     [Invoke,
                      WarnFailed (testName cfg) attempt (maxRetries cfg) (message error),
                      LogRetrying delay,
                      Sleep delay] @ trace r\<rparr>)
             else \<lparr>outcome = Rejected (ActionError error), trace = [Invoke], world = s'\<rparr>)
      else
        \<lparr>outcome = Rejected
           (case lastError of
              None \<Rightarrow> TypeError
            | Some e \<Rightarrow> FailedAfter (testName cfg) (maxRetries cfg) (message e)),
         trace = [],
         world = s\<rparr>)"
  by pat_completeness auto
termination
  by (relation "measure (\<lambda>(testFunc, cfg, attempt, delay, lastError, s).
        nat (maxRetries cfg + 1 - attempt))") auto

declare retry_loop.simps [simp del]

definition executeWithRetry ::
  "('s, 'v) testFunc \<Rightarrow> retry_config \<Rightarrow> 's \<Rightarrow> ('v, 's) run" where
  "executeWithRetry testFunc cfg s = retry_loop testFunc cfg 1 (initialDelay cfg) None s"

text \<open>What the claims observe of a run: how often the action was called, and the timers set.\<close>

definition invocations :: "('v, 's) run \<Rightarrow> nat" where
  "invocations r = length (filter (\<lambda>ev. ev = Invoke) (trace r))"

fun sleep_of :: "io_event \<Rightarrow> js_number list" where
  "sleep_of (Sleep d) = [d]"
| "sleep_of _ = []"

definition delays :: "('v, 's) run \<Rightarrow> js_number list" where
  "delays r = concat (map sleep_of (trace r))"

text \<open>The value of \<open>delay\<close> after line 78 has run \<open>k\<close> times, from \<open>d\<close> with multiplier \<open>m\<close>.\<close>

fun delay_after :: "js_number \<Rightarrow> js_number \<Rightarrow> nat \<Rightarrow> js_number" where
  "delay_after d m 0 = d"
| "delay_after d m (Suc k) = delay_after (js_mul d m) m k"

text \<open>The state of the world after the action has run \<open>k\<close> times from \<open>s\<close>.\<close>

fun world_after :: "('s, 'v) testFunc \<Rightarrow> nat \<Rightarrow> 's \<Rightarrow> 's" where
  "world_after testFunc 0 s = s"
| "world_after testFunc (Suc k) s = world_after testFunc k (snd (testFunc s))"

text \<open>The error's message contains one of the patterns (lines 99 to 104 alone).\<close>

definition isRetryable :: "js_error \<Rightarrow> string list \<Rightarrow> bool" where
  "isRetryable error pats =
     list_ex (includes_js (case message error of None \<Rightarrow> [] | Some m \<Rightarrow> m)) pats"

text \<open>The action throws from state \<open>s\<close>, and what it throws is retryable.\<close>

definition fails_retryably :: "('s, 'v) testFunc \<Rightarrow> string list \<Rightarrow> 's \<Rightarrow> bool" where
  "fails_retryably testFunc pats s =
     (case fst (testFunc s) of Returns v \<Rightarrow> False | Throws e \<Rightarrow> isRetryable e pats)"

text \<open>Two actions and two policies to run the executor on: the state of the world is the
  number of calls made so far, and every call throws a fresh error object.\<close>

definition always_timeout :: "(nat, unit) testFunc" where
  "always_timeout n = (Throws \<lparr>ident = n, message = Some ''timeout waiting for navigation''\<rparr>, Suc n)"

definition assertion_fails :: "(nat, unit) testFunc" where
  "assertion_fails n = (Throws \<lparr>ident = n, message = Some ''expected 3 to equal 4''\<rparr>, Suc n)"

definition policy :: "int \<Rightarrow> retry_config" where
  "policy n = \<lparr>maxRetries = n, initialDelay = Num 100, backoffMultiplier = Num 2,
     testName = ''Login'', retryableErrors = [''timeout'', ''Timeout'']\<rparr>"

definition tie_policy :: retry_config where
  "tie_policy = \<lparr>maxRetries = 3, initialDelay = Num 3002399751580331,
     backoffMultiplier = Num 3, testName = ''Login'', retryableErrors = [''timeout'']\<rparr>"

section \<open>Selector manager: \<open>utils/helpers/selectorManager.js\<close>\<close>

type_synonym selector = string

text \<open>The object stored per key in \<open>selectorAttempts\<close> (line 163).\<close>

record attempt_stats =
  success :: nat
  failure :: nat

text \<open>The three fields the constructor sets; both maps are keyed by strings.\<close>

record 'l SelectorManager =
  logger :: 'l
  selectorCache :: "string \<rightharpoonup> selector"
  selectorAttempts :: "string \<rightharpoonup> attempt_stats"

definition new_SelectorManager :: "'l \<Rightarrow> 'l SelectorManager" where
  "new_SelectorManager lg =
     \<lparr>logger = lg, selectorCache = Map.empty, selectorAttempts = Map.empty\<rparr>"

text \<open>
  The page, as far as the manager uses it: whether
  \<open>page.locator(selector).waitFor({state: 'attached', timeout})\<close> resolves (\<open>True\<close>) or
  throws. The page does not change during one call, and the logger's methods return.
\<close>

type_synonym page = "selector \<Rightarrow> int \<Rightarrow> bool"

text \<open>
  What a call does besides returning and updating the two maps: the waits on the page and
  the lines handed to the logger, each with the holes of its template.
\<close>

datatype ui_event =
    WaitFor selector int
  | LogFound string selector
  | DebugFailed string selector
  | ErrorAllFailed string "selector list"
  | LogFoundAny string selector
  | ErrorNoMatch string "selector list"

text \<open>The value a lookup returns: the locator built from a selector, or \<open>null\<close>.\<close>

datatype js_return = Locator selector | Null

record ('r, 'l) call =
  returned :: 'r
  manager :: "'l SelectorManager"
  events :: "ui_event list"

text \<open>\<open>recordAttempt\<close>, lines 159 to 172.\<close>

definition recordAttempt ::
  "string \<Rightarrow> selector \<Rightarrow> bool \<Rightarrow> 'l SelectorManager \<Rightarrow> 'l SelectorManager" where
  "recordAttempt elementName selector ok this =
     (let key = elementName @ ''_'' @ selector;
          stats = (case selectorAttempts this key of
                     None \<Rightarrow> \<lparr>success = 0, failure = 0\<rparr>
                   | Some st \<Rightarrow> st)
      in this\<lparr>selectorAttempts := (selectorAttempts this)(key \<mapsto>
           (if ok then stats\<lparr>success := success stats + 1\<rparr>
            else stats\<lparr>failure := failure stats + 1\<rparr>))\<rparr>)"

text \<open>
  The \<open>for\<close> loop of \<open>smartSelect\<close>, lines 43 to 68: \<open>Some\<close> is the \<open>return\<close> of
  line 60, \<open>None\<close> is falling out of the loop.
\<close>

fun select_loop ::
  "page \<Rightarrow> string \<Rightarrow> string \<Rightarrow> int \<Rightarrow> selector list \<Rightarrow> 'l SelectorManager
     \<Rightarrow> (js_return option, 'l) call" where
  "select_loop page elementName cacheKey timeout [] this =
     \<lparr>returned = None, manager = this, events = []\<rparr>"
| "select_loop page elementName cacheKey timeout (selector # rest) this =
     (if page selector timeout then
        \<lparr>returned = Some (Locator selector),
         manager = recordAttempt elementName selector True
           (this\<lparr>selectorCache := (selectorCache this)(cacheKey \<mapsto> selector)\<rparr>),
         events = [WaitFor selector timeout, LogFound elementName selector]\<rparr>
      else
        (let r = select_loop page elementName cacheKey timeout rest
                   (recordAttempt elementName selector False this)
         in r\<lparr>events :=
              [WaitFor selector timeout, DebugFailed elementName selector] @ events r\<rparr>))"

text \<open>\<open>smartSelect\<close>, lines 27 to 76.\<close>

definition smartSelect ::
  "page \<Rightarrow> string \<Rightarrow> selector \<Rightarrow> selector list \<Rightarrow> int \<Rightarrow> 'l SelectorManager
     \<Rightarrow> (js_return, 'l) call" where
  "smartSelect page elementName primarySelector fallbackSelectors timeout this =
     (let cacheKey = elementName @ ''_'' @ primarySelector in
      case selectorCache this cacheKey of
        Some cached \<Rightarrow> \<lparr>returned = Locator cached, manager = this, events = []\<rparr>
      | None \<Rightarrow>
          (let allSelectors = primarySelector # fallbackSelectors;
               r = select_loop page elementName cacheKey timeout allSelectors this
           in case returned r of
                Some locator \<Rightarrow> \<lparr>returned = locator, manager = manager r, events = events r\<rparr>
              | None \<Rightarrow>
                  \<lparr>returned = Null, manager = manager r,
                   events = events r @ [ErrorAllFailed elementName allSelectors]\<rparr>))"

text \<open>The loop of \<open>smartSelectAny\<close>, lines 92 to 105: it touches neither map.\<close>

fun any_loop :: "page \<Rightarrow> string \<Rightarrow> int \<Rightarrow> selector list \<Rightarrow> js_return option \<times> ui_event list" where
  "any_loop page elementName timeout [] = (None, [])"
| "any_loop page elementName timeout (selector # rest) =
     (if page selector timeout then
        (Some (Locator selector), [WaitFor selector timeout, LogFoundAny elementName selector])
      else
        (case any_loop page elementName timeout rest of
           (r, evs) \<Rightarrow> (r, WaitFor selector timeout # evs)))"

text \<open>\<open>smartSelectAny\<close>, lines 86 to 112.\<close>

definition smartSelectAny ::
  "page \<Rightarrow> string \<Rightarrow> selector list \<Rightarrow> int \<Rightarrow> 'l SelectorManager \<Rightarrow> (js_return, 'l) call" where
  "smartSelectAny page elementName selectors timeout this =
     (case any_loop page elementName timeout selectors of
        (Some locator, evs) \<Rightarrow> \<lparr>returned = locator, manager = this, events = evs\<rparr>
      | (None, evs) \<Rightarrow>
          \<lparr>returned = Null, manager = this,
           events = evs @ [ErrorNoMatch elementName selectors]\<rparr>)"

text \<open>\<open>clearCache\<close>, lines 152 to 154.\<close>

definition clearCache :: "'l SelectorManager \<Rightarrow> 'l SelectorManager" where
  "clearCache this = this\<lparr>selectorCache := Map.empty\<rparr>"

text \<open>\<open>getStats\<close>, lines 177 to 179: a plain object with the entries of \<open>selectorAttempts\<close>.\<close>

definition getStats :: "'l SelectorManager \<Rightarrow> ((string \<rightharpoonup> attempt_stats), 'l) call" where
  "getStats this = \<lparr>returned = selectorAttempts this, manager = this, events = []\<rparr>"

text \<open>A caller's operations on one manager, and the manager after a sequence of them.\<close>

datatype operation =
    SmartSelect page string selector "selector list" int
  | SmartSelectAny page string "selector list" int
  | ClearCache
  | GetStats

fun perform :: "operation \<Rightarrow> 'l SelectorManager \<Rightarrow> 'l SelectorManager" where
  "perform (SmartSelect page elementName primarySelector fallbackSelectors timeout) this =
     manager (smartSelect page elementName primarySelector fallbackSelectors timeout this)"
| "perform (SmartSelectAny page elementName selectors timeout) this =
     manager (smartSelectAny page elementName selectors timeout this)"
| "perform ClearCache this = clearCache this"
| "perform GetStats this = manager (getStats this)"

fun perform_all :: "operation list \<Rightarrow> 'l SelectorManager \<Rightarrow> 'l SelectorManager" where
  "perform_all [] this = this"
| "perform_all (operation # rest) this = perform_all rest (perform operation this)"

text \<open>The two counters of a key, zero while the key has no entry.\<close>

definition successCount :: "'l SelectorManager \<Rightarrow> string \<Rightarrow> nat" where
  "successCount this key = (case selectorAttempts this key of None \<Rightarrow> 0 | Some st \<Rightarrow> success st)"

definition failureCount :: "'l SelectorManager \<Rightarrow> string \<Rightarrow> nat" where
  "failureCount this key = (case selectorAttempts this key of None \<Rightarrow> 0 | Some st \<Rightarrow> failure st)"

text \<open>The selectors a call waited on, in order.\<close>

fun waited_on :: "ui_event list \<Rightarrow> selector list" where
  "waited_on [] = []"
| "waited_on (WaitFor selector timeout # evs) = selector # waited_on evs"
| "waited_on (ev # evs) = waited_on evs"

text \<open>Pages to run the manager on: which selectors attach, whatever the timeout.\<close>

definition page_with :: "selector list \<Rightarrow> page" where
  "page_with present selector timeout = (selector \<in> set present)"

text \<open>Managers to run on: a new one, and the one left by a first lookup of \<open>X\<close> that found
  \<open>#b\<close> after \<open>#a\<close> had failed.\<close>

definition fresh :: "unit SelectorManager" where
  "fresh = new_SelectorManager ()"

definition cached_manager :: "unit SelectorManager" where
  "cached_manager =
     manager (smartSelect (page_with [''#b'']) ''X'' ''#a'' [''#b'', ''#c''] 5000 fresh)"

section \<open>Properties of the retry executor\<close>

text \<open>\<open>includes_js\<close> is the substring test.\<close>

lemma includes_js_iff: "includes_js s p \<longleftrightarrow> (\<exists>a b. s = a @ p @ b)"
proof (induction s)
  case Nil
  then show ?case by simp
next
  case (Cons c cs)
  show ?case
  proof
    assume "includes_js (c # cs) p"
    then consider "take (length p) (c # cs) = p" | "includes_js cs p" by auto
    then show "\<exists>a b. c # cs = a @ p @ b"
    proof cases
      case 1
      then have "c # cs = [] @ p @ drop (length p) (c # cs)"
        by (metis append_Nil append_take_drop_id)
      then show ?thesis by blast
    next
      case 2
      with Cons.IH obtain a b where "cs = a @ p @ b" by blast
      then have "c # cs = (c # a) @ p @ b" by simp
      then show ?thesis by blast
    qed
  next
    assume "\<exists>a b. c # cs = a @ p @ b"
    then obtain a b where ab: "c # cs = a @ p @ b" by blast
    show "includes_js (c # cs) p"
    proof (cases a)
      case Nil
      with ab have "take (length p) (c # cs) = p" by simp
      then show ?thesis by simp
    next
      case (Cons x a')
      with ab have "cs = a' @ p @ b" by simp
      with Cons.IH have "includes_js cs p" by blast
      then show ?thesis by simp
    qed
  qed
qed

lemma shouldRetry_iff:
  "shouldRetry e attempt mx pats \<longleftrightarrow> attempt < mx \<and> isRetryable e pats"
  by (auto simp: shouldRetry_def isRetryable_def)

text \<open>Products of natural numbers below \<open>2 ^ 53\<close> are not rounded.\<close>

lemma bit_length_le: "n < 2 ^ k \<Longrightarrow> bit_length n \<le> k"
proof (induction k arbitrary: n)
  case 0
  then show ?case by (simp add: bit_length.simps)
next
  case (Suc k)
  then have "n div 2 < 2 ^ k" by simp
  with Suc.IH have "bit_length (n div 2) \<le> k" by blast
  then show ?case by (subst bit_length.simps) simp
qed

lemma pow2_pos: "0 < pow2 e"
  by (simp add: pow2_def)

lemma round_half_even_of_int: "round_half_even (of_int k) = k"
  by (simp add: round_half_even_def)

lemma round64_of_nat:
  assumes "N < 2 ^ 53"
  shows "round64 (of_nat N) = Num (of_nat N)"
proof (cases "N = 0")
  case True
  then show ?thesis
    using pow2_pos [of 1024] by (simp add: round64_def round_half_even_def Let_def not_le)
next
  case False
  then have one: "(1::rat) \<le> of_nat N" by simp
  define L where "L = int (bit_length N) - 1"
  from assms have "bit_length N \<le> 53" by (rule bit_length_le)
  then have L: "L \<le> 52" by (simp add: L_def)
  have fl: "floor_log2 (of_nat N) = L"
    using one by (simp add: floor_log2_def L_def)
  define j where "j = nat (52 - L)"
  have e: "max (L - 52) (- 1074) = - int j"
  proof -
    have "0 < bit_length N" using False by (subst bit_length.simps) simp
    then have "0 \<le> L" by (simp add: L_def)
    with L show ?thesis by (simp add: j_def)
  qed
  have p: "pow2 (- int j) = 1 / 2 ^ j"
    by (cases "j = 0") (simp_all add: pow2_def)
  have q: "(of_nat N :: rat) / (1 / 2 ^ j) = of_int (int (N * 2 ^ j))" by simp
  have v: "(of_int (int (N * 2 ^ j)) :: rat) * (1 / 2 ^ j) = of_nat N" by simp
  have big: "\<not> pow2 1024 \<le> (of_nat N :: rat)"
  proof -
    have "(of_nat N :: rat) < of_nat (2 ^ 53)" using assms by (simp only: of_nat_less_iff)
    also have "\<dots> \<le> pow2 1024" by (simp add: pow2_def)
    finally show ?thesis by simp
  qed
  have nz: "int (N * 2 ^ j) \<noteq> 0" using False by simp
  have a: "\<bar>rat_of_nat N\<bar> = of_nat N" by simp
  have m: "round_half_even (\<bar>rat_of_nat N\<bar> / (1 / 2 ^ j)) = int (N * 2 ^ j)"
    by (simp only: a q round_half_even_of_int)
  have pe: "pow2 (max (floor_log2 \<bar>rat_of_nat N\<bar> - 52) (- 1074)) = 1 / 2 ^ j"
    by (simp only: a fl e p)
  have neg: "\<not> rat_of_nat N < 0" by simp
  show ?thesis
    unfolding round64_def Let_def pe m v
    by (simp only: big nz neg if_False)
qed

lemma js_mul_exact:
  assumes "x * y < 2 ^ 53"
  shows "js_mul (Num (of_nat x)) (Num (of_nat y)) = Num (of_nat (x * y))"
proof (cases "x = 0 \<or> y = 0")
  case True
  then show ?thesis by (auto simp: js_mul_def)
next
  case False
  then show ?thesis
    using round64_of_nat [OF assms] by (simp add: js_mul_def)
qed

lemma delay_after_exact:
  "\<forall>a\<le>k. d * m ^ a < 2 ^ 53 \<Longrightarrow>
   delay_after (Num (of_nat d)) (Num (of_nat m)) k = Num (of_nat (d * m ^ k))"
proof (induction k arbitrary: d)
  case 0
  show ?case by simp
next
  case (Suc k)
  from Suc.prems have "d * m ^ 1 < 2 ^ 53" by (metis One_nat_def Suc_le_mono zero_le)
  then have first: "js_mul (Num (of_nat d)) (Num (of_nat m)) = Num (of_nat (d * m))"
    using js_mul_exact [of d m] by simp
  have "\<forall>a\<le>k. (d * m) * m ^ a < 2 ^ 53"
  proof (intro allI impI)
    fix a assume "a \<le> k"
    then have "Suc a \<le> Suc k" by simp
    with Suc.prems have "d * m ^ Suc a < 2 ^ 53" by blast
    then show "(d * m) * m ^ a < 2 ^ 53" by (simp add: mult.assoc)
  qed
  from Suc.IH [OF this] show ?case
    by (simp add: first mult.assoc)
qed

text \<open>An odd product of 54 binary digits is a tie, and goes to the even neighbour.\<close>

lemma js_mul_tie: "js_mul (Num 3002399751580331) (Num 3) = Num 9007199254740992"
proof -
  have fl: "floor_log2 \<bar>9007199254740993\<bar> = 53"
    by (simp add: floor_log2_def bit_length.simps)
  have e: "max (53 - 52) (- 1074) = (1::int)" by simp
  have p: "pow2 1 = 2" by (simp add: pow2_def)
  have f: "\<lfloor>9007199254740993 / (2::rat)\<rfloor> = 4503599627370496"
    by (rule floor_unique) simp_all
  have m: "round_half_even (\<bar>9007199254740993\<bar> / 2) = 4503599627370496"
    by (simp add: round_half_even_def Let_def f)
  have v: "rat_of_int 4503599627370496 * 2 = 9007199254740992" by simp
  have big: "\<not> pow2 1024 \<le> 9007199254740992" by (simp add: pow2_def)
  have r: "round64 9007199254740993 = Num 9007199254740992"
    unfolding round64_def Let_def fl e p m v
    using big by simp
  then show ?thesis by (simp add: js_mul_def)
qed

text \<open>
  A multiplier that is no integer: 100 times the number nearest to 1.1 is the number printed
  as 110.00000000000001.
\<close>

lemma js_mul_inexact:
  "js_mul (Num 100) (Num (2476979795053773 / 2 ^ 51)) = Num (7740561859543041 / 2 ^ 46)"
proof -
  define x :: rat where "x = 100 * (2476979795053773 / 2 ^ 51)"
  have fx: "\<lfloor>x\<rfloor> = 110" unfolding x_def by (rule floor_unique) simp_all
  have x1: "1 \<le> x" unfolding x_def by simp
  have ax: "\<bar>x\<bar> = x" using x1 by simp
  have fl: "floor_log2 x = 6"
    using x1 by (simp add: floor_log2_def fx bit_length.simps)
  have e: "max (6 - 52) (- 1074) = (- 46 :: int)" by simp
  have p: "pow2 (- 46) = 1 / 2 ^ 46" by (simp add: pow2_def)
  have q: "x / (1 / 2 ^ 46) = 61924494876344325 / 8" unfolding x_def by simp
  have f: "\<lfloor>61924494876344325 / (8::rat)\<rfloor> = 7740561859543040"
    by (rule floor_unique) simp_all
  have m: "round_half_even (61924494876344325 / 8) = 7740561859543041"
    by (simp add: round_half_even_def Let_def f)
  have big: "\<not> pow2 1024 \<le> rat_of_int 7740561859543041 * (1 / 2 ^ 46)"
    by (simp add: pow2_def)
  have nz: "(7740561859543041::int) \<noteq> 0" by simp
  have xn: "\<not> x < 0" using x1 by simp
  have r: "round64 x = Num (7740561859543041 / 2 ^ 46)"
    unfolding round64_def Let_def ax fl e p q m
    using big xn by simp
  have "js_mul (Num 100) (Num (2476979795053773 / 2 ^ 51)) = round64 x"
    by (simp add: js_mul_def x_def)
  with r show ?thesis by simp
qed

text \<open>
  The run up to the first failure that is not retried: every call before it has failed
  retryably and has been followed by one timer, set to the current \<open>delay\<close>.
\<close>

lemma delay_after_upt:
  "delay # map (delay_after (js_mul delay m) m) [0..<k] = map (delay_after delay m) [0..<Suc k]"
proof -
  have "[0..<Suc k] = 0 # map Suc [0..<k]"
    by (simp add: map_Suc_upt upt_conv_Cons del: upt_Suc)
  then show ?thesis
    by (simp add: comp_def del: upt_Suc)
qed

lemma retry_loop_first_refusal:
  assumes "attempt + int k \<le> maxRetries cfg"
    and "\<forall>j<k. fails_retryably testFunc (retryableErrors cfg) (world_after testFunc j s)"
    and "fst (testFunc (world_after testFunc k s)) = Throws e"
    and "\<not> shouldRetry e (attempt + int k) (maxRetries cfg) (retryableErrors cfg)"
  shows "outcome (retry_loop testFunc cfg attempt delay lastError s) = Rejected (ActionError e)
       \<and> invocations (retry_loop testFunc cfg attempt delay lastError s) = Suc k
       \<and> delays (retry_loop testFunc cfg attempt delay lastError s)
           = map (delay_after delay (backoffMultiplier cfg)) [0..<k]
       \<and> world (retry_loop testFunc cfg attempt delay lastError s) = world_after testFunc (Suc k) s"
  using assms
proof (induction k arbitrary: attempt delay lastError s)
  case 0
  obtain c s' where ts: "testFunc s = (c, s')" by (cases "testFunc s")
  with 0 have c: "c = Throws e" by simp
  from 0 ts c
  have "retry_loop testFunc cfg attempt delay lastError s
      = \<lparr>outcome = Rejected (ActionError e), trace = [Invoke], world = s'\<rparr>"
    by (subst retry_loop.simps) simp
  with ts show ?case
    by (simp add: invocations_def delays_def)
next
  case (Suc k)
  obtain c s' where ts: "testFunc s = (c, s')" by (cases "testFunc s")
  from Suc.prems(2) have "fails_retryably testFunc (retryableErrors cfg) (world_after testFunc 0 s)"
    by blast
  with ts obtain e0 where c: "c = Throws e0" and r0: "isRetryable e0 (retryableErrors cfg)"
    by (auto simp: fails_retryably_def split: completion.splits)
  from Suc.prems(1) have lt: "attempt < maxRetries cfg" by simp
  with r0 have sr: "shouldRetry e0 attempt (maxRetries cfg) (retryableErrors cfg)"
    by (simp add: shouldRetry_iff)
  let ?r = "retry_loop testFunc cfg (attempt + 1) (js_mul delay (backoffMultiplier cfg))
              (Some e0) s'"
  have unfold: "retry_loop testFunc cfg attempt delay lastError s =
      ?r\<lparr>trace := [Invoke, WarnFailed (testName cfg) attempt (maxRetries cfg) (message e0),
                     LogRetrying delay, Sleep delay] @ trace ?r\<rparr>"
    using ts c sr lt by (subst retry_loop.simps) (simp add: Let_def)
  have p1: "attempt + 1 + int k \<le> maxRetries cfg" using Suc.prems(1) by simp
  have p2: "\<forall>j<k. fails_retryably testFunc (retryableErrors cfg) (world_after testFunc j s')"
  proof (intro allI impI)
    fix j assume "j < k"
    then have "Suc j < Suc k" by simp
    with Suc.prems(2) have "fails_retryably testFunc (retryableErrors cfg) (world_after testFunc (Suc j) s)"
      by blast
    with ts show "fails_retryably testFunc (retryableErrors cfg) (world_after testFunc j s')" by simp
  qed
  have p3: "fst (testFunc (world_after testFunc k s')) = Throws e"
    using Suc.prems(3) ts by simp
  have p4: "\<not> shouldRetry e (attempt + 1 + int k) (maxRetries cfg) (retryableErrors cfg)"
    using Suc.prems(4) by (simp add: add.commute add.left_commute)
  note IH = Suc.IH [OF p1 p2 p3 p4, of "js_mul delay (backoffMultiplier cfg)" "Some e0"]
  have d: "delays (retry_loop testFunc cfg attempt delay lastError s) = delay # delays ?r"
    by (simp add: unfold delays_def)
  have i: "invocations (retry_loop testFunc cfg attempt delay lastError s) = Suc (invocations ?r)"
    by (simp add: unfold invocations_def)
  have o: "outcome (retry_loop testFunc cfg attempt delay lastError s) = outcome ?r"
    by (simp add: unfold)
  have w: "world (retry_loop testFunc cfg attempt delay lastError s) = world ?r"
    by (simp add: unfold)
  have g: "delay # map (delay_after (js_mul delay (backoffMultiplier cfg)) (backoffMultiplier cfg)) [0..<k]
         = map (delay_after delay (backoffMultiplier cfg)) [0..<Suc k]"
    by (rule delay_after_upt)
  show ?case
    using IH ts g by (simp only: d i o w) simp
qed

text \<open>The same for a run in which every one of the \<open>maxRetries\<close> calls fails retryably.\<close>

lemma all_attempts_fail:
  assumes "1 \<le> maxRetries cfg"
    and "\<forall>k < nat (maxRetries cfg).
           fails_retryably testFunc (retryableErrors cfg) (world_after testFunc k s)"
  shows "\<exists>e. fst (testFunc (world_after testFunc (nat (maxRetries cfg) - 1) s)) = Throws e
           \<and> outcome (executeWithRetry testFunc cfg s) = Rejected (ActionError e)
           \<and> invocations (executeWithRetry testFunc cfg s) = nat (maxRetries cfg)
           \<and> delays (executeWithRetry testFunc cfg s)
               = map (delay_after (initialDelay cfg) (backoffMultiplier cfg))
                   [0..<nat (maxRetries cfg) - 1]"
proof -
  define k where "k = nat (maxRetries cfg) - 1"
  from assms(1) have k: "1 + int k = maxRetries cfg" "k < nat (maxRetries cfg)"
    "nat (maxRetries cfg) = Suc k"
    by (simp_all add: k_def)
  with assms(2) have "fails_retryably testFunc (retryableErrors cfg) (world_after testFunc k s)"
    by blast
  then obtain e where e: "fst (testFunc (world_after testFunc k s)) = Throws e"
    by (auto simp: fails_retryably_def split: completion.splits)
  have a1: "1 + int k \<le> maxRetries cfg" using k by simp
  have a2: "\<forall>j<k. fails_retryably testFunc (retryableErrors cfg) (world_after testFunc j s)"
    using assms(2) k by simp
  have a4: "\<not> shouldRetry e (1 + int k) (maxRetries cfg) (retryableErrors cfg)"
    using k by (simp add: shouldRetry_def)
  from retry_loop_first_refusal [OF a1 a2 e a4, of "initialDelay cfg" None]
  have "outcome (executeWithRetry testFunc cfg s) = Rejected (ActionError e)"
    and "invocations (executeWithRetry testFunc cfg s) = Suc k"
    and "delays (executeWithRetry testFunc cfg s)
           = map (delay_after (initialDelay cfg) (backoffMultiplier cfg)) [0..<k]"
    by (simp_all add: executeWithRetry_def)
  with e k(3) show ?thesis unfolding k_def by auto
qed

lemma world_after_always_timeout: "world_after always_timeout k s = s + k"
  by (induction k arbitrary: s) (simp_all add: always_timeout_def)

lemma always_timeout_fails: "fails_retryably always_timeout (retryableErrors (policy n)) s"
  by (simp add: fails_retryably_def always_timeout_def isRetryable_def policy_def)

lemma always_timeout_fails_tie: "fails_retryably always_timeout (retryableErrors tie_policy) s"
  by (simp add: fails_retryably_def always_timeout_def isRetryable_def tie_policy_def)

text \<open>
  On exhaustion the error of line 85 is out of reach: the last failing attempt leaves through
  line 80 with the error it caught.
\<close>

lemma exhausted_rethrows_last_error:
  assumes "1 \<le> maxRetries cfg"
    and "\<forall>k < nat (maxRetries cfg).
           fails_retryably testFunc (retryableErrors cfg) (world_after testFunc k s)"
  shows "\<exists>e. fst (testFunc (world_after testFunc (nat (maxRetries cfg) - 1) s)) = Throws e
           \<and> outcome (executeWithRetry testFunc cfg s) = Rejected (ActionError e)
           \<and> invocations (executeWithRetry testFunc cfg s) = nat (maxRetries cfg)"
  using all_attempts_fail [OF assms] by blast

text \<open>
  Claim C1 fails on the code. With \<open>maxRetries = 3\<close> and an action that throws a retryable
  timeout on each of its three calls, \<open>executeWithRetry\<close> does not reject with the error that
  line 85 builds from \<open>maxRetries\<close> and the last message: it rejects with the bare error
  object of the third call, because \<open>shouldRetry\<close> answers \<open>False\<close> on the last attempt and
  line 80 rethrows before the loop can end.
\<close>

theorem exhaustion_error_never_thrown:
  "outcome (executeWithRetry always_timeout (policy 3) 0)
     = Rejected (ActionError \<lparr>ident = 2, message = Some ''timeout waiting for navigation''\<rparr>)
   \<and> outcome (executeWithRetry always_timeout (policy 3) 0)
     \<noteq> Rejected (FailedAfter ''Login'' 3 (Some ''timeout waiting for navigation''))
   \<and> invocations (executeWithRetry always_timeout (policy 3) 0) = 3"
proof -
  have h1: "1 \<le> maxRetries (policy 3)" by (simp add: policy_def)
  have h2: "\<forall>k < nat (maxRetries (policy 3)).
      fails_retryably always_timeout (retryableErrors (policy 3)) (world_after always_timeout k 0)"
    by (simp add: always_timeout_fails)
  have m: "nat (maxRetries (policy 3)) = 3" by (simp add: policy_def)
  from exhausted_rethrows_last_error [OF h1 h2]
  show ?thesis
    by (simp add: m world_after_always_timeout) (simp add: always_timeout_def)
qed

text \<open>
  Claim C2, as the code has it. With \<open>maxRetries = n \<ge> 1\<close> and an action that throws a
  retryable error on each of its \<open>n\<close> calls, the action is called exactly \<open>n\<close> times and exactly
  \<open>n - 1\<close> timers are set; the timer set after attempt \<open>a\<close> (before attempt \<open>a + 1\<close>) is
  \<open>initialDelay\<close> multiplied \<open>a - 1\<close> times in turn by \<open>backoffMultiplier\<close>, each product rounded
  to a JavaScript number. It is \<open>d * m ^ (a - 1)\<close> when the delay \<open>d\<close> and the multiplier \<open>m\<close>
  are natural numbers and every \<open>d * m ^ a\<close> that is computed stays below \<open>2 ^ 53\<close>.
\<close>

theorem backoff_schedule:
  assumes "1 \<le> maxRetries cfg"
    and "\<forall>k < nat (maxRetries cfg).
           fails_retryably testFunc (retryableErrors cfg) (world_after testFunc k s)"
  shows "invocations (executeWithRetry testFunc cfg s) = nat (maxRetries cfg)
       \<and> length (delays (executeWithRetry testFunc cfg s)) = nat (maxRetries cfg) - 1
       \<and> delays (executeWithRetry testFunc cfg s)
           = map (\<lambda>a. delay_after (initialDelay cfg) (backoffMultiplier cfg) (a - 1))
               [1..<nat (maxRetries cfg)]
       \<and> (initialDelay cfg = Num (of_nat d) \<and> backoffMultiplier cfg = Num (of_nat m)
            \<and> (\<forall>a < nat (maxRetries cfg) - 1. d * m ^ a < 2 ^ 53)
          \<longrightarrow> delays (executeWithRetry testFunc cfg s)
                = map (\<lambda>a. Num (of_nat (d * m ^ (a - 1)))) [1..<nat (maxRetries cfg)])"
proof -
  define k where "k = nat (maxRetries cfg) - 1"
  from assms(1) have n: "nat (maxRetries cfg) = Suc k" by (simp add: k_def)
  from all_attempts_fail [OF assms]
  have i0: "invocations (executeWithRetry testFunc cfg s) = nat (maxRetries cfg)"
    and dl0: "delays (executeWithRetry testFunc cfg s)
               = map (delay_after (initialDelay cfg) (backoffMultiplier cfg))
                   [0..<nat (maxRetries cfg) - 1]"
    by blast+
  from i0 have i: "invocations (executeWithRetry testFunc cfg s) = Suc k"
    by (simp only: n)
  from dl0 have dl: "delays (executeWithRetry testFunc cfg s)
               = map (delay_after (initialDelay cfg) (backoffMultiplier cfg)) [0..<k]"
    by (simp only: k_def)
  have shift: "map (\<lambda>a. f (a - 1)) [1..<Suc k] = map f [0..<k]" for f :: "nat \<Rightarrow> js_number"
  proof -
    have "map (\<lambda>a. f (a - 1)) [1..<Suc k] = map (\<lambda>a. f (a - 1)) (map Suc [0..<k])"
      by (simp only: map_Suc_upt One_nat_def)
    also have "\<dots> = map f [0..<k]" by (simp add: comp_def)
    finally show ?thesis .
  qed
  have general: "delays (executeWithRetry testFunc cfg s)
      = map (\<lambda>a. delay_after (initialDelay cfg) (backoffMultiplier cfg) (a - 1)) [1..<Suc k]"
    using dl shift [of "delay_after (initialDelay cfg) (backoffMultiplier cfg)"] by simp
  have exact: "delays (executeWithRetry testFunc cfg s)
      = map (\<lambda>a. Num (of_nat (d * m ^ (a - 1)))) [1..<Suc k]"
    if id: "initialDelay cfg = Num (of_nat d)" and bm: "backoffMultiplier cfg = Num (of_nat m)"
      and small: "\<forall>a<k. d * m ^ a < 2 ^ 53"
  proof -
    have "map (delay_after (Num (of_nat d)) (Num (of_nat m))) [0..<k]
        = map (\<lambda>a. Num (of_nat (d * m ^ a))) [0..<k]"
    proof (rule map_cong [OF refl])
      fix a assume "a \<in> set [0..<k]"
      then have "a < k" by simp
      with small have "\<forall>b\<le>a. d * m ^ b < 2 ^ 53" by simp
      then show "delay_after (Num (of_nat d)) (Num (of_nat m)) a = Num (of_nat (d * m ^ a))"
        by (rule delay_after_exact)
    qed
    with dl id bm shift [of "\<lambda>a. Num (of_nat (d * m ^ a))"] show ?thesis by simp
  qed
  have nk: "nat (maxRetries cfg) - 1 = k" by (simp add: k_def)
  have c2: "length (delays (executeWithRetry testFunc cfg s)) = nat (maxRetries cfg) - 1"
    unfolding nk by (simp add: dl)
  have c3: "delays (executeWithRetry testFunc cfg s)
      = map (\<lambda>a. delay_after (initialDelay cfg) (backoffMultiplier cfg) (a - 1))
          [1..<nat (maxRetries cfg)]"
    using general by (simp only: n)
  have c4: "initialDelay cfg = Num (of_nat d) \<and> backoffMultiplier cfg = Num (of_nat m)
        \<and> (\<forall>a < nat (maxRetries cfg) - 1. d * m ^ a < 2 ^ 53)
      \<longrightarrow> delays (executeWithRetry testFunc cfg s)
            = map (\<lambda>a. Num (of_nat (d * m ^ (a - 1)))) [1..<nat (maxRetries cfg)]"
  proof
    assume h: "initialDelay cfg = Num (of_nat d) \<and> backoffMultiplier cfg = Num (of_nat m)
        \<and> (\<forall>a < nat (maxRetries cfg) - 1. d * m ^ a < 2 ^ 53)"
    then have "\<forall>a<k. d * m ^ a < 2 ^ 53" unfolding nk by blast
    with h have "delays (executeWithRetry testFunc cfg s)
        = map (\<lambda>a. Num (of_nat (d * m ^ (a - 1)))) [1..<Suc k]"
      by (intro exact) blast+
    then show "delays (executeWithRetry testFunc cfg s)
        = map (\<lambda>a. Num (of_nat (d * m ^ (a - 1)))) [1..<nat (maxRetries cfg)]"
      by (simp only: n)
  qed
  show ?thesis
    by (intro conjI) (rule i0, rule c2, rule c3, rule c4)
qed

text \<open>The policy \<open>d = 100\<close>, \<open>m = 2\<close>, \<open>n = 4\<close>: four calls, delays 100, 200, 400.\<close>

theorem backoff_schedule_witness:
  "invocations (executeWithRetry always_timeout (policy 4) 0) = 4
   \<and> delays (executeWithRetry always_timeout (policy 4) 0) = [Num 100, Num 200, Num 400]"
proof -
  have h1: "1 \<le> maxRetries (policy 4)" by (simp add: policy_def)
  have h2: "\<forall>k < nat (maxRetries (policy 4)).
      fails_retryably always_timeout (retryableErrors (policy 4)) (world_after always_timeout k 0)"
    by (simp add: always_timeout_fails)
  have m: "nat (maxRetries (policy 4)) = 4" by (simp add: policy_def)
  have ex: "initialDelay (policy 4) = Num (of_nat 100) \<and> backoffMultiplier (policy 4) = Num (of_nat 2)
      \<and> (\<forall>a < nat (maxRetries (policy 4)) - 1. (100::nat) * 2 ^ a < 2 ^ 53)"
  proof (intro conjI allI impI)
    fix a assume "a < nat (maxRetries (policy 4)) - 1"
    then have "a \<le> 3" by (simp add: m)
    then have "(2::nat) ^ a \<le> 2 ^ 3" by (rule power_increasing) simp
    then show "(100::nat) * 2 ^ a < 2 ^ 53" by simp
  qed (simp_all add: policy_def)
  have u: "map (\<lambda>a. Num (of_nat (100 * 2 ^ (a - 1)))) [1..<4] = [Num 100, Num 200, Num 400]"
    by (simp add: upt_rec)
  from backoff_schedule [OF h1 h2, of 100 2]
  have i: "invocations (executeWithRetry always_timeout (policy 4) 0) = nat (maxRetries (policy 4))"
    and imp: "initialDelay (policy 4) = Num (of_nat 100) \<and> backoffMultiplier (policy 4) = Num (of_nat 2)
        \<and> (\<forall>a < nat (maxRetries (policy 4)) - 1. (100::nat) * 2 ^ a < 2 ^ 53)
      \<longrightarrow> delays (executeWithRetry always_timeout (policy 4) 0)
            = map (\<lambda>a. Num (of_nat (100 * 2 ^ (a - 1)))) [1..<nat (maxRetries (policy 4))]"
    by blast+
  from imp ex have "delays (executeWithRetry always_timeout (policy 4) 0)
      = map (\<lambda>a. Num (of_nat (100 * 2 ^ (a - 1)))) [1..<nat (maxRetries (policy 4))]"
    by blast
  with i show ?thesis
    by (simp only: m u)
qed

text \<open>
  Claim C2 as stated fails: with \<open>initialDelay = 3002399751580331\<close>, \<open>backoffMultiplier = 3\<close>
  and \<open>maxRetries = 3\<close> the timer before attempt 3 is set to 9007199254740992, while
  \<open>d * m ^ (2 - 1)\<close> is 9007199254740993, which no JavaScript number is.
\<close>

theorem backoff_rounding_counterexample:
  "delays (executeWithRetry always_timeout tie_policy 0)
     = [Num 3002399751580331, Num 9007199254740992]
   \<and> Num 9007199254740992 \<noteq> Num (3002399751580331 * 3 ^ (2 - 1))"
proof -
  have h1: "1 \<le> maxRetries tie_policy" by (simp add: tie_policy_def)
  have h2: "\<forall>k < nat (maxRetries tie_policy).
      fails_retryably always_timeout (retryableErrors tie_policy) (world_after always_timeout k 0)"
    by (simp add: always_timeout_fails_tie)
  have u: "[0..<nat (maxRetries tie_policy) - 1] = [0, Suc 0]"
    by (simp add: tie_policy_def upt_rec)
  from all_attempts_fail [OF h1 h2]
  have "delays (executeWithRetry always_timeout tie_policy 0)
      = map (delay_after (initialDelay tie_policy) (backoffMultiplier tie_policy))
          [0..<nat (maxRetries tie_policy) - 1]"
    by blast
  then have "delays (executeWithRetry always_timeout tie_policy 0)
      = [initialDelay tie_policy, js_mul (initialDelay tie_policy) (backoffMultiplier tie_policy)]"
    unfolding u by simp
  then show ?thesis
    by (simp add: tie_policy_def js_mul_tie)
qed

text \<open>
  Claim C3. If the call number \<open>k + 1\<close> (within \<open>maxRetries\<close>, the calls before it having
  failed retryably) throws an error whose message contains none of the \<open>retryableErrors\<close>
  patterns, then \<open>executeWithRetry\<close> rejects with that same error object, the action has been
  called exactly \<open>k + 1\<close> times, and no timer is set after the failing call. For \<open>k = 0\<close>: one
  call, whatever \<open>maxRetries\<close> is.
\<close>

theorem non_retryable_aborts_at_once:
  assumes "int k < maxRetries cfg"
    and "\<forall>j<k. fails_retryably testFunc (retryableErrors cfg) (world_after testFunc j s)"
    and "fst (testFunc (world_after testFunc k s)) = Throws e"
    and "\<not> isRetryable e (retryableErrors cfg)"
  shows "outcome (executeWithRetry testFunc cfg s) = Rejected (ActionError e)
       \<and> invocations (executeWithRetry testFunc cfg s) = Suc k
       \<and> length (delays (executeWithRetry testFunc cfg s)) = k"
proof -
  have a1: "1 + int k \<le> maxRetries cfg" using assms(1) by simp
  have a4: "\<not> shouldRetry e (1 + int k) (maxRetries cfg) (retryableErrors cfg)"
    using assms(4) by (simp add: shouldRetry_iff)
  from retry_loop_first_refusal [OF a1 assms(2) assms(3) a4, of "initialDelay cfg" None]
  show ?thesis by (simp add: executeWithRetry_def)
qed

text \<open>
  A failed assertion on attempt 1 of a policy with \<open>maxRetries = 5\<close>: one call, no delay,
  the original object.
\<close>

theorem non_retryable_aborts_at_once_witness:
  "outcome (executeWithRetry assertion_fails (policy 5) 0)
     = Rejected (ActionError \<lparr>ident = 0, message = Some ''expected 3 to equal 4''\<rparr>)
   \<and> invocations (executeWithRetry assertion_fails (policy 5) 0) = 1
   \<and> delays (executeWithRetry assertion_fails (policy 5) 0) = []"
proof -
  have h1: "int 0 < maxRetries (policy 5)" by (simp add: policy_def)
  have h2: "\<forall>j<0. fails_retryably assertion_fails (retryableErrors (policy 5))
      (world_after assertion_fails j 0)" by simp
  have h3: "fst (assertion_fails (world_after assertion_fails 0 0))
      = Throws \<lparr>ident = 0, message = Some ''expected 3 to equal 4''\<rparr>"
    by (simp add: assertion_fails_def)
  have h4: "\<not> isRetryable \<lparr>ident = 0, message = Some ''expected 3 to equal 4''\<rparr>
      (retryableErrors (policy 5))"
    by (simp add: isRetryable_def policy_def)
  from non_retryable_aborts_at_once [OF h1 h2 h3 h4]
  show ?thesis by simp
qed

text \<open>
  Claim C10. With \<open>maxRetries = 0\<close> the loop body never runs: the action is not called, no
  timer is set, the world is untouched, and the run rejects with the \<open>TypeError\<close> of reading
  \<open>lastError.message\<close> while \<open>lastError\<close> is still undefined. Nothing checks \<open>maxRetries\<close>
  before the loop.
\<close>

theorem zero_maxRetries_TypeError:
  "executeWithRetry testFunc (cfg\<lparr>maxRetries := 0\<rparr>) s
     = \<lparr>outcome = Rejected TypeError, trace = [], world = s\<rparr>"
  by (simp add: executeWithRetry_def retry_loop.simps)

text \<open>
  The always-failing action under \<open>maxRetries = 0\<close>.
\<close>

theorem zero_maxRetries_TypeError_witness:
  "outcome (executeWithRetry always_timeout (policy 0) 0) = Rejected TypeError
   \<and> invocations (executeWithRetry always_timeout (policy 0) 0) = 0"
  using zero_maxRetries_TypeError [of always_timeout "policy 5" "0::nat"]
  by (simp add: policy_def invocations_def)

section \<open>Properties of the selector manager\<close>

lemma recordAttempt_frame:
  "logger (recordAttempt n sel ok this) = logger this"
  "selectorCache (recordAttempt n sel ok this) = selectorCache this"
  by (simp_all add: recordAttempt_def Let_def)

lemma recordAttempt_counts:
  "successCount (recordAttempt n sel ok this) key
     = (if ok \<and> key = n @ ''_'' @ sel then successCount this key + 1 else successCount this key)"
  "failureCount (recordAttempt n sel ok this) key
     = (if \<not> ok \<and> key = n @ ''_'' @ sel then failureCount this key + 1 else failureCount this key)"
  by (auto simp: recordAttempt_def Let_def successCount_def failureCount_def split: option.splits)

lemma successCount_cache_upd [simp]:
  "successCount (this\<lparr>selectorCache := c\<rparr>) key = successCount this key"
  "failureCount (this\<lparr>selectorCache := c\<rparr>) key = failureCount this key"
  by (simp_all add: successCount_def failureCount_def)

lemma select_loop_counts_mono:
  "successCount this key \<le> successCount (manager (select_loop page n ck t sels this)) key
   \<and> failureCount this key \<le> failureCount (manager (select_loop page n ck t sels this)) key"
proof (induction sels arbitrary: this)
  case Nil
  then show ?case by simp
next
  case (Cons sel rest)
  show ?case
  proof (cases "page sel t")
    case True
    then show ?thesis by (simp add: recordAttempt_counts)
  next
    case False
    have "successCount this key \<le> successCount (recordAttempt n sel False this) key"
      and "failureCount this key \<le> failureCount (recordAttempt n sel False this) key"
      by (simp_all add: recordAttempt_counts)
    with Cons.IH [of "recordAttempt n sel False this"] False show ?thesis
      by (simp add: Let_def)
  qed
qed

lemma smartSelect_manager:
  "manager (smartSelect page n p fb t this)
     = (case selectorCache this (n @ ''_'' @ p) of
          Some c \<Rightarrow> this
        | None \<Rightarrow> manager (select_loop page n (n @ ''_'' @ p) t (p # fb) this))"
  by (simp add: smartSelect_def Let_def split: option.splits)

lemma smartSelectAny_manager: "manager (smartSelectAny page n sels t this) = this"
  by (simp add: smartSelectAny_def split: prod.splits option.splits)

lemma perform_counts_mono:
  "successCount this key \<le> successCount (perform operation this) key
   \<and> failureCount this key \<le> failureCount (perform operation this) key"
proof (cases operation)
  case (SmartSelect page n p fb t)
  show ?thesis
  proof (cases "selectorCache this (n @ ''_'' @ p)")
    case None
    with SmartSelect select_loop_counts_mono [of this key page n "n @ ''_'' @ p" t "p # fb"]
    show ?thesis by (simp add: smartSelect_manager)
  next
    case (Some c)
    with SmartSelect show ?thesis by (simp add: smartSelect_manager)
  qed
next
  case (SmartSelectAny page n sels t)
  then show ?thesis by (simp add: smartSelectAny_manager)
next
  case ClearCache
  then show ?thesis by (simp add: clearCache_def)
next
  case GetStats
  then show ?thesis by (simp add: getStats_def)
qed

text \<open>
  Claim C8. Over any sequence of \<open>smartSelect\<close>, \<open>smartSelectAny\<close>, \<open>clearCache\<close> and
  \<open>getStats\<close> calls on a manager, the success count and the failure count of every key of
  \<open>selectorAttempts\<close> (a key is element name, underscore, selector) after the sequence are at
  least what they were before it: nothing decrements or resets a counter.
\<close>

theorem counters_never_decrease:
  "successCount this key \<le> successCount (perform_all operations this) key
   \<and> failureCount this key \<le> failureCount (perform_all operations this) key"
proof (induction operations arbitrary: this)
  case Nil
  show ?case by simp
next
  case (Cons operation rest)
  from perform_counts_mono [of this key operation] Cons.IH [of "perform operation this"]
  show ?case by simp
qed

text \<open>
  Four operations on a manager that has counted one failure of \<open>#a\<close>.
\<close>

theorem counters_never_decrease_witness:
  "failureCount cached_manager ''X_#a'' = 1
   \<and> failureCount (perform_all
        [ClearCache, GetStats, SmartSelectAny (page_with []) ''X'' [''#a''] 5000,
         SmartSelect (page_with []) ''X'' ''#a'' [''#b''] 5000] cached_manager) ''X_#a'' = 2
   \<and> successCount (perform_all
        [ClearCache, GetStats, SmartSelectAny (page_with []) ''X'' [''#a''] 5000,
         SmartSelect (page_with []) ''X'' ''#a'' [''#b''] 5000] cached_manager) ''X_#b'' = 1"
  using counters_never_decrease [of cached_manager "''X_#a''"
      "[ClearCache, GetStats, SmartSelectAny (page_with []) ''X'' [''#a''] 5000,
        SmartSelect (page_with []) ''X'' ''#a'' [''#b''] 5000]"]
  by (simp add: cached_manager_def fresh_def new_SelectorManager_def smartSelect_def
        smartSelectAny_def clearCache_def getStats_def
        page_with_def Let_def recordAttempt_def failureCount_def successCount_def)

text \<open>
  Claim C9. \<open>clearCache\<close> empties \<open>selectorCache\<close> and leaves \<open>selectorAttempts\<close> and the
  logger as they were.
\<close>

theorem clearCache_frame:
  "selectorCache (clearCache this) = Map.empty
   \<and> selectorAttempts (clearCache this) = selectorAttempts this
   \<and> logger (clearCache this) = logger this"
  by (simp add: clearCache_def)

text \<open>
  Clearing the cache of a manager that holds one entry and one failure.
\<close>

theorem clearCache_frame_witness:
  "selectorCache (clearCache cached_manager) ''X_#a'' = None
   \<and> selectorCache cached_manager ''X_#a'' = Some ''#b''
   \<and> failureCount (clearCache cached_manager) ''X_#a'' = 1"
  using clearCache_frame [of cached_manager]
  by (simp add: cached_manager_def fresh_def new_SelectorManager_def smartSelect_def
        page_with_def Let_def recordAttempt_def failureCount_def)

lemma select_loop_all_fail:
  "\<forall>sel \<in> set sels. \<not> page sel t \<Longrightarrow>
   select_loop page n ck t sels this =
     \<lparr>returned = None,
      manager = fold (\<lambda>sel. recordAttempt n sel False) sels this,
      events = concat (map (\<lambda>sel. [WaitFor sel t, DebugFailed n sel]) sels)\<rparr>"
  by (induction sels arbitrary: this) (simp_all add: Let_def)

lemma fold_recordAttempt_cache:
  "selectorCache (fold (\<lambda>sel. recordAttempt n sel ok) sels this) = selectorCache this"
  by (induction sels arbitrary: this) (simp_all add: recordAttempt_frame)

lemma waited_on_failures:
  "waited_on (concat (map (\<lambda>sel. [WaitFor sel t, DebugFailed n sel]) sels) @ [ErrorAllFailed n all])
     = sels"
  by (induction sels) simp_all

text \<open>
  Claim C4, as the code has it. When the key of the call has no cache entry and no candidate
  attaches within the timeout, \<open>smartSelect\<close> returns \<open>null\<close>, not an error value: it has waited
  on every candidate in order, recorded one failure for each, left the cache as it was, and
  handed the list of all the selectors tried to \<open>logger.error\<close>. Nothing is thrown.
\<close>

theorem all_fail_returns_null:
  assumes "selectorCache this (n @ ''_'' @ p) = None"
    and "\<forall>sel \<in> set (p # fb). \<not> page sel t"
  shows "returned (smartSelect page n p fb t this) = Null
       \<and> events (smartSelect page n p fb t this)
           = concat (map (\<lambda>sel. [WaitFor sel t, DebugFailed n sel]) (p # fb))
               @ [ErrorAllFailed n (p # fb)]
       \<and> waited_on (events (smartSelect page n p fb t this)) = p # fb
       \<and> manager (smartSelect page n p fb t this)
           = fold (\<lambda>sel. recordAttempt n sel False) (p # fb) this
       \<and> selectorCache (manager (smartSelect page n p fb t this)) = selectorCache this"
proof -
  have r: "smartSelect page n p fb t this =
      \<lparr>returned = Null,
       manager = fold (\<lambda>sel. recordAttempt n sel False) (p # fb) this,
       events = concat (map (\<lambda>sel. [WaitFor sel t, DebugFailed n sel]) (p # fb))
                  @ [ErrorAllFailed n (p # fb)]\<rparr>"
    unfolding smartSelect_def Let_def
    by (simp only: assms(1) option.case
          select_loop_all_fail [where page = page and t = t and sels = "p # fb", OF assms(2)])
       simp
  have w: "waited_on (concat (map (\<lambda>sel. [WaitFor sel t, DebugFailed n sel]) (p # fb))
              @ [ErrorAllFailed n (p # fb)]) = p # fb"
    by (rule waited_on_failures)
  have c: "selectorCache (fold (\<lambda>sel. recordAttempt n sel False) (p # fb) this) = selectorCache this"
    by (rule fold_recordAttempt_cache)
  show ?thesis
    unfolding r using w c by simp
qed

text \<open>
  Two candidates, neither on the page.
\<close>

theorem all_fail_returns_null_witness:
  "returned (smartSelect (page_with [''#other'']) ''Login Button'' ''#submit''
      [''button[type=submit]''] 5000 fresh) = Null
   \<and> events (smartSelect (page_with [''#other'']) ''Login Button'' ''#submit''
      [''button[type=submit]''] 5000 fresh)
     = [WaitFor ''#submit'' 5000, DebugFailed ''Login Button'' ''#submit'',
        WaitFor ''button[type=submit]'' 5000, DebugFailed ''Login Button'' ''button[type=submit]'',
        ErrorAllFailed ''Login Button'' [''#submit'', ''button[type=submit]'']]
   \<and> failureCount (manager (smartSelect (page_with [''#other'']) ''Login Button'' ''#submit''
      [''button[type=submit]''] 5000 fresh)) ''Login Button_#submit'' = 1"
proof -
  have h1: "selectorCache fresh (''Login Button'' @ ''_'' @ ''#submit'') = None"
    by (simp add: fresh_def new_SelectorManager_def)
  have h2: "\<forall>sel \<in> set (''#submit'' # [''button[type=submit]'']).
      \<not> page_with [''#other''] sel 5000"
    by (simp add: page_with_def)
  from all_fail_returns_null [where page = "page_with [''#other'']" and t = 5000
      and this = fresh and n = "''Login Button''" and p = "''#submit''"
      and fb = "[''button[type=submit]'']", OF h1 h2]
  show ?thesis
    by (simp add: fresh_def new_SelectorManager_def recordAttempt_def failureCount_def)
qed

text \<open>
  Claim C4 as stated fails: with three candidates of which none is on the page, what the
  call returns is \<open>null\<close>, which is no error value and carries no list of candidates.
\<close>

theorem not_found_is_null_counterexample:
  "returned (smartSelect (page_with []) ''Login Button'' ''#submit''
      [''button[type=submit]'', ''text=Submit''] 5000 fresh) = Null"
  by (simp add: smartSelect_def fresh_def new_SelectorManager_def page_with_def Let_def)

lemma smartSelect_cache_hit:
  "selectorCache this (n @ ''_'' @ p) = Some c \<Longrightarrow>
   smartSelect page n p fb t this = \<lparr>returned = Locator c, manager = this, events = []\<rparr>"
  by (simp add: smartSelect_def)

lemma select_loop_other_keys:
  "key \<noteq> ck \<Longrightarrow>
   selectorCache (manager (select_loop page n ck t sels this)) key = selectorCache this key"
  by (induction sels arbitrary: this) (simp_all add: Let_def recordAttempt_frame)

lemma perform_keeps_entry:
  assumes "selectorCache this key = Some c" and "operation \<noteq> ClearCache"
  shows "selectorCache (perform operation this) key = Some c"
proof (cases operation)
  case (SmartSelect page n p fb t)
  show ?thesis
  proof (cases "selectorCache this (n @ ''_'' @ p)")
    case None
    with assms(1) have "key \<noteq> n @ ''_'' @ p" by auto
    then have "selectorCache (manager (select_loop page n (n @ ''_'' @ p) t (p # fb) this)) key
        = selectorCache this key"
      by (rule select_loop_other_keys)
    with SmartSelect None assms(1) show ?thesis
      by (simp add: smartSelect_manager del: select_loop.simps)
  next
    case (Some cached)
    with SmartSelect assms(1) show ?thesis by (simp add: smartSelect_manager)
  qed
next
  case (SmartSelectAny page n sels t)
  with assms(1) show ?thesis by (simp add: smartSelectAny_manager)
next
  case ClearCache
  with assms(2) show ?thesis by simp
next
  case GetStats
  with assms(1) show ?thesis by (simp add: getStats_def)
qed

lemma perform_all_keeps_entry:
  "selectorCache this key = Some c \<Longrightarrow> ClearCache \<notin> set operations \<Longrightarrow>
   selectorCache (perform_all operations this) key = Some c"
proof (induction operations arbitrary: this)
  case Nil
  then show ?case by simp
next
  case (Cons operation rest)
  from Cons.prems have "operation \<noteq> ClearCache" and "ClearCache \<notin> set rest" by auto
  with Cons.prems(1) Cons.IH [of "perform operation this"] show ?case
    by (simp add: perform_keeps_entry)
qed

text \<open>
  Claim C5, as the code has it. When the key of the call (element name, underscore, primary
  selector) has a cache entry, \<open>smartSelect\<close> returns the locator of the cached selector at once,
  whether or not that selector still attaches: it waits on nothing, records no attempt, and
  leaves the cache entry and the counters as they are. The entry also stays as it is through
  every sequence of operations that has no \<open>clearCache\<close> in it: only \<open>clearCache\<close> removes an
  entry.
\<close>

theorem cache_hit_returns_unverified:
  assumes "selectorCache this (n @ ''_'' @ p) = Some c"
  shows "smartSelect page n p fb t this
           = \<lparr>returned = Locator c, manager = this, events = []\<rparr>
       \<and> (ClearCache \<notin> set operations \<longrightarrow>
            selectorCache (perform_all operations this) (n @ ''_'' @ p) = Some c)"
  using assms by (simp add: smartSelect_cache_hit perform_all_keeps_entry)

lemma cached_manager_cache: "selectorCache cached_manager ''X_#a'' = Some ''#b''"
  by (simp add: cached_manager_def fresh_def new_SelectorManager_def smartSelect_def
        page_with_def Let_def recordAttempt_def)

text \<open>
  The entry of \<open>#b\<close> on a page that only has \<open>#c\<close>.
\<close>

theorem cache_hit_returns_unverified_witness:
  "smartSelect (page_with [''#c'']) ''X'' ''#a'' [''#b'', ''#c''] 5000 cached_manager
     = \<lparr>returned = Locator ''#b'', manager = cached_manager, events = []\<rparr>
   \<and> selectorCache (perform_all
        [SmartSelect (page_with [''#c'']) ''X'' ''#a'' [''#b'', ''#c''] 5000,
         SmartSelect (page_with [''#c'']) ''X'' ''#c'' [''#a''] 5000,
         SmartSelectAny (page_with []) ''X'' [''#b''] 5000,
         GetStats] cached_manager) ''X_#a'' = Some ''#b''"
proof -
  have h: "selectorCache cached_manager (''X'' @ ''_'' @ ''#a'') = Some ''#b''"
    using cached_manager_cache by simp
  let ?ops = "[SmartSelect (page_with [''#c'']) ''X'' ''#a'' [''#b'', ''#c''] 5000,
        SmartSelect (page_with [''#c'']) ''X'' ''#c'' [''#a''] 5000,
        SmartSelectAny (page_with []) ''X'' [''#b''] 5000,
        GetStats]"
  note hit = cache_hit_returns_unverified [OF h, of "page_with [''#c'']" "[''#b'', ''#c'']" 5000 ?ops]
  have nc: "ClearCache \<notin> set ?ops" by simp
  from hit have a: "smartSelect (page_with [''#c'']) ''X'' ''#a'' [''#b'', ''#c''] 5000 cached_manager
      = \<lparr>returned = Locator ''#b'', manager = cached_manager, events = []\<rparr>"
    by (rule conjunct1)
  from hit nc have b: "selectorCache (perform_all ?ops cached_manager) (''X'' @ ''_'' @ ''#a'')
      = Some ''#b''"
    by blast
  from a b show ?thesis by (simp del: perform_all.simps)
qed

text \<open>
  Claim C5 as stated fails: the cached \<open>#b\<close> is gone from the page and \<open>#c\<close> would attach,
  yet the call returns the locator of \<open>#b\<close>, has waited on no candidate, and the entry is still
  in the cache.
\<close>

theorem stale_cache_counterexample:
  "returned (smartSelect (page_with [''#c'']) ''X'' ''#a'' [''#b'', ''#c''] 5000 cached_manager)
     = Locator ''#b''
   \<and> \<not> page_with [''#c''] ''#b'' 5000
   \<and> page_with [''#c''] ''#c'' 5000
   \<and> waited_on (events
        (smartSelect (page_with [''#c'']) ''X'' ''#a'' [''#b'', ''#c''] 5000 cached_manager)) = []
   \<and> selectorCache (manager
        (smartSelect (page_with [''#c'']) ''X'' ''#a'' [''#b'', ''#c''] 5000 cached_manager))
        ''X_#a'' = Some ''#b''"
  using cached_manager_cache by (simp add: smartSelect_def page_with_def)




lemma select_loop_caches:
  "returned (select_loop page n ck t sels this) = Some (Locator B) \<Longrightarrow>
   selectorCache (manager (select_loop page n ck t sels this)) ck = Some B"
  by (induction sels arbitrary: this)
     (simp_all add: Let_def recordAttempt_frame split: if_splits)

text \<open>
  Claim C7, as the code has it. After an uncached call for element name \<open>n\<close> and primary
  selector \<open>A\<close> has returned the locator of \<open>B\<close>, a second call with the same element name and
  the same primary selector returns the locator of \<open>B\<close> without waiting on any candidate,
  neither \<open>A\<close> nor \<open>B\<close>, and without changing the manager, whatever the page, the fallbacks
  and the timeout of the second call are.
\<close>

theorem cached_winner_reused:
  assumes "selectorCache this (n @ ''_'' @ A) = None"
    and "returned (smartSelect page1 n A fb1 t1 this) = Locator B"
  shows "smartSelect page2 n A fb2 t2 (manager (smartSelect page1 n A fb1 t1 this))
       = \<lparr>returned = Locator B,
          manager = manager (smartSelect page1 n A fb1 t1 this),
          events = []\<rparr>"
proof -
  let ?l = "select_loop page1 n (n @ ''_'' @ A) t1 (A # fb1) this"
  have "returned ?l = Some (Locator B)"
  proof (cases "returned ?l")
    case None
    with assms show ?thesis by (simp add: smartSelect_def Let_def del: select_loop.simps)
  next
    case (Some locator)
    with assms show ?thesis by (simp add: smartSelect_def Let_def del: select_loop.simps)
  qed
  then have "selectorCache (manager ?l) (n @ ''_'' @ A) = Some B"
    by (rule select_loop_caches)
  moreover have "manager (smartSelect page1 n A fb1 t1 this) = manager ?l"
    using assms(1) by (simp add: smartSelect_manager)
  ultimately have "selectorCache (manager (smartSelect page1 n A fb1 t1 this)) (n @ ''_'' @ A) = Some B"
    by simp
  then show ?thesis
    by (rule smartSelect_cache_hit)
qed

text \<open>
  The second call on a page where \<open>#a\<close> has come back still gets \<open>#b\<close>.
\<close>

theorem cached_winner_reused_witness:
  "smartSelect (page_with [''#a'', ''#b'']) ''X'' ''#a'' [''#b'', ''#c''] 5000 cached_manager
     = \<lparr>returned = Locator ''#b'', manager = cached_manager, events = []\<rparr>"
proof -
  have h1: "selectorCache fresh (''X'' @ ''_'' @ ''#a'') = None"
    by (simp add: fresh_def new_SelectorManager_def)
  have h2: "returned (smartSelect (page_with [''#b'']) ''X'' ''#a'' [''#b'', ''#c''] 5000 fresh)
      = Locator ''#b''"
    by (simp add: smartSelect_def fresh_def new_SelectorManager_def page_with_def Let_def)
  from cached_winner_reused [where this = fresh and n = "''X''" and A = "''#a''"
      and ?page1.0 = "page_with [''#b'']" and ?fb1.0 = "[''#b'', ''#c'']" and ?t1.0 = 5000
      and B = "''#b''" and ?page2.0 = "page_with [''#a'', ''#b'']" and ?fb2.0 = "[''#b'', ''#c'']"
      and ?t2.0 = 5000, OF h1 h2]
  show ?thesis by (simp add: cached_manager_def)
qed

text \<open>
  Claim C7 as stated fails: with \<open>#b\<close> cached for \<open>X\<close>, the same call again waits on no
  candidate at all, so \<open>#b\<close> is not attempted; and a call for \<open>X\<close> with another primary
  selector misses the cache, whose key contains the primary selector, and waits on \<open>#a\<close>.
\<close>

theorem cache_reuse_counterexample:
  "selectorCache cached_manager ''X_#a'' = Some ''#b''
   \<and> waited_on (events
        (smartSelect (page_with [''#b'']) ''X'' ''#a'' [''#b'', ''#c''] 5000 cached_manager)) = []
   \<and> waited_on (events
        (smartSelect (page_with [''#b'']) ''X'' ''#z'' [''#a'', ''#b''] 5000 cached_manager))
       = [''#z'', ''#a'', ''#b'']"
  by (simp add: cached_manager_def fresh_def new_SelectorManager_def smartSelect_def
        page_with_def Let_def recordAttempt_def)


end
